theory Spec2Isabelle
  imports Main
begin

section \<open>electron-reload: the watch/reset coordination of \<open>electronReload\<close>\<close>

text \<open>
  The module exports one function, \<open>electronReload(glob, mainFile, options)\<close>. It talks to
  four collaborators that are not part of the repository: the Electron \<open>app\<close> object and
  its windows, the chokidar watch service, \<open>child_process.spawn\<close> and \<open>fs.existsSync\<close>.
  The model is a process state that holds what these collaborators hold (registered
  listeners, watchers, the arrays allocated by the calls) and a trace of the calls made
  on them. Closures are defunctionalised: a closure is a constructor carrying what it
  captured.
\<close>

subsection \<open>Data\<close>

type_synonym window = nat \<comment> \<open>identity of a \<open>BrowserWindow\<close> object\<close>
type_synonym addr = nat \<comment> \<open>identity of an array object\<close>

text \<open>An entry of chokidar's \<open>ignored\<close> option: a regular expression (its \<open>test\<close>) or a string.\<close>

datatype matcher = RegExp "string \<Rightarrow> bool" | Str string

datatype hardResetMethod = Exit | Quit

text \<open>
  \<open>ElectronReloadOptions\<close>: every key is optional (\<open>None\<close> is an absent key). Of the
  inherited \<open>WatchOptions\<close> the key \<open>ignored\<close> is modelled by itself, the others are
  carried along as key/value pairs.
\<close>

record options =
  electron :: "string option"
  electronArgv :: "string list option"
  appArgv :: "string list option"
  hardResetMethod :: "hardResetMethod option"
  forceHardReset :: "bool option"
  ignored :: "matcher list option"
  watchOptions :: "(string \<times> string) list"

datatype stdio = Inherit | Pipe | Ignore

text \<open>The calls the module makes on its collaborators, in the order they happen.\<close>

datatype action =
    ReloadIgnoringCache window \<comment> \<open>\<open>bw.webContents.reloadIgnoringCache()\<close>\<close>
  | Spawn string "string list" bool stdio \<comment> \<open>\<open>spawn(executable, args, {detached, stdio})\<close>\<close>
  | ChildUnref \<comment> \<open>\<open>child.unref()\<close> on the child just spawned\<close>
  | AppExit \<comment> \<open>\<open>app.exit()\<close>\<close>
  | AppQuit \<comment> \<open>\<open>app.quit()\<close>\<close>

text \<open>
  The two change handlers as closures: \<open>softResetHandler\<close> captures the array
  \<open>browserWindows\<close> of its call, the handler returned by \<open>createHardResetHandler\<close> captures
  the four arguments.
\<close>

datatype handler =
    SoftReset addr
  | HardReset "string option" "hardResetMethod option" "string list option" "string list option"

record listener =
  once :: bool \<comment> \<open>registered with \<open>once\<close> (removed when it is first called) or with \<open>on\<close>\<close>
  handler :: handler

text \<open>A chokidar \<open>FSWatcher\<close>: what it watches, its options, whether it was closed, its
  listeners for the \<open>change\<close> event in registration order.\<close>

record watcher =
  paths :: "string list"
  wopts :: options
  closed :: bool
  listeners :: "listener list"

text \<open>
  The process: the store of arrays (\<open>next_addr\<close> is the next unused identity), the
  listeners of \<open>app\<close> for \<open>browser-window-created\<close> (each captures the array of its call),
  the listeners of the windows for \<open>closed\<close> (each captures its window and the array),
  the watchers in creation order (a watcher's identity is its index), and the trace.
\<close>

record proc =
  arrays :: "addr \<Rightarrow> window list"
  next_addr :: addr
  created_listeners :: "addr list"
  closed_listeners :: "(window \<times> addr) list"
  watchers :: "watcher list"
  trace :: "action list"

definition proc0 :: proc where
  "proc0 = \<lparr>arrays = (\<lambda>_. []), next_addr = 0, created_listeners = [],
            closed_listeners = [], watchers = [], trace = []\<rparr>"

text \<open>What the module reads from its environment: \<open>app.getAppPath()\<close> (read once, when the
  module is loaded), \<open>fs.existsSync\<close>, and the glob matching of the watch service.\<close>

record env =
  appPath :: string
  existsSync :: "string \<Rightarrow> bool"
  picomatch :: "string \<Rightarrow> string \<Rightarrow> bool"

datatype error = Error string

datatype outcome = Returned | Threw error

subsection \<open>JavaScript primitives\<close>

text \<open>\<open>Array.prototype.indexOf\<close>: the first index holding the element, \<open>-1\<close> when there is none.\<close>

fun indexOf :: "'a \<Rightarrow> 'a list \<Rightarrow> int" where
  "indexOf x [] = -1"
| "indexOf x (y # ys) =
     (if x = y then 0 else (let i = indexOf x ys in if i < 0 then -1 else i + 1))"

text \<open>\<open>xs.splice(i, 1)\<close>: a negative start counts from the end (\<open>splice(-1, 1)\<close> removes the
  last element), a start beyond the end removes nothing.\<close>

definition splice1 :: "int \<Rightarrow> 'a list \<Rightarrow> 'a list" where
  "splice1 i xs =
     (let len = int (length xs);
          start = (if i < 0 then max (len + i) 0 else min i len)
      in take (nat start) xs @ drop (nat start + 1) xs)"

text \<open>\<open>xs || []\<close> on a \<open>string[] | undefined\<close>: every array is truthy, also the empty one.\<close>

fun or_empty :: "string list option \<Rightarrow> string list" where
  "or_empty None = []"
| "or_empty (Some xs) = xs"

text \<open>\<open>Object.assign({ ignored: d }, options)\<close>: the keys of \<open>options\<close> overwrite the default.\<close>

definition assign_ignored :: "matcher list \<Rightarrow> options \<Rightarrow> options" where
  "assign_ignored d opts =
     (case ignored opts of None \<Rightarrow> opts\<lparr>ignored := Some d\<rparr> | Some _ \<Rightarrow> opts)"

subsection \<open>The module\<close>

text \<open>\<open>const ignoredPaths = /node_modules|[/\\]\./\<close>: the string contains \<open>node_modules\<close>, or
  a slash or backslash followed by a dot.\<close>

fun contains :: "string \<Rightarrow> string \<Rightarrow> bool" where
  "contains x [] = (x = [])"
| "contains x (c # cs) = (take (length x) (c # cs) = x \<or> contains x cs)"

definition ignoredPaths :: "string \<Rightarrow> bool" where
  "ignoredPaths s \<longleftrightarrow>
     contains ''node_modules'' s \<or> contains ''/.'' s \<or> contains [CHR 0x5C, CHR ''.''] s"

text \<open>The handler returned by \<open>createHardResetHandler(executable, hardResetMethod, eArgv, aArgv)\<close>.\<close>

definition createHardResetHandler ::
  "env \<Rightarrow> string option \<Rightarrow> hardResetMethod option \<Rightarrow> string list option \<Rightarrow>
   string list option \<Rightarrow> proc \<Rightarrow> proc" where
  "createHardResetHandler env executable method eArgv aArgv p =
     (case executable of
        None \<Rightarrow> p
      | Some exe \<Rightarrow>
          if exe = [] then p
          else
            let args = (or_empty eArgv @ [appPath env]) @ or_empty aArgv;
                p1 = p\<lparr>trace := trace p @ [Spawn exe args True Inherit]\<rparr>;
                p2 = p1\<lparr>trace := trace p1 @ [ChildUnref]\<rparr>
            in if method = Some Exit then p2\<lparr>trace := trace p2 @ [AppExit]\<rparr>
               else p2\<lparr>trace := trace p2 @ [AppQuit]\<rparr>)"

text \<open>\<open>softResetHandler\<close>: \<open>browserWindows.forEach((bw) => bw.webContents.reloadIgnoringCache())\<close>.\<close>

definition softResetHandler :: "addr \<Rightarrow> proc \<Rightarrow> proc" where
  "softResetHandler browserWindows p =
     foldl (\<lambda>q bw. q\<lparr>trace := trace q @ [ReloadIgnoringCache bw]\<rparr>) p (arrays p browserWindows)"

fun call :: "env \<Rightarrow> handler \<Rightarrow> proc \<Rightarrow> proc" where
  "call env (SoftReset browserWindows) p = softResetHandler browserWindows p"
| "call env (HardReset executable method eArgv aArgv) p =
     createHardResetHandler env executable method eArgv aArgv p"

text \<open>The listener of \<open>browser-window-created\<close>: push the window, listen for its \<open>closed\<close>.\<close>

definition on_browser_window_created :: "addr \<Rightarrow> window \<Rightarrow> proc \<Rightarrow> proc" where
  "on_browser_window_created browserWindows bw p =
     p\<lparr>arrays := (arrays p)(browserWindows := arrays p browserWindows @ [bw]),
       closed_listeners := closed_listeners p @ [(bw, browserWindows)]\<rparr>"

text \<open>The listener of \<open>closed\<close>: \<open>const i = browserWindows.indexOf(bw); browserWindows.splice(i, 1)\<close>.\<close>

definition on_closed :: "addr \<Rightarrow> window \<Rightarrow> proc \<Rightarrow> proc" where
  "on_closed browserWindows bw p =
     (let i = indexOf bw (arrays p browserWindows)
      in p\<lparr>arrays := (arrays p)(browserWindows := splice1 i (arrays p browserWindows))\<rparr>)"

text \<open>The calls on the collaborators that change the process state.\<close>

definition new_array :: "proc \<Rightarrow> addr \<times> proc" where
  "new_array p =
     (next_addr p, p\<lparr>arrays := (arrays p)(next_addr p := []), next_addr := Suc (next_addr p)\<rparr>)"

definition chokidar_watch :: "string \<Rightarrow> options \<Rightarrow> proc \<Rightarrow> nat \<times> proc" where
  "chokidar_watch path opts p =
     (length (watchers p),
      p\<lparr>watchers := watchers p @ [\<lparr>paths = [path], wopts = opts, closed = False, listeners = []\<rparr>]\<rparr>)"

definition update_watcher :: "nat \<Rightarrow> (watcher \<Rightarrow> watcher) \<Rightarrow> proc \<Rightarrow> proc" where
  "update_watcher i f p =
     (if i < length (watchers p) then p\<lparr>watchers := (watchers p)[i := f (watchers p ! i)]\<rparr> else p)"

definition watcher_on :: "nat \<Rightarrow> handler \<Rightarrow> proc \<Rightarrow> proc" where
  "watcher_on i h = update_watcher i (\<lambda>w. w\<lparr>listeners := listeners w @ [\<lparr>once = False, handler = h\<rparr>]\<rparr>)"

definition watcher_once :: "nat \<Rightarrow> handler \<Rightarrow> proc \<Rightarrow> proc" where
  "watcher_once i h = update_watcher i (\<lambda>w. w\<lparr>listeners := listeners w @ [\<lparr>once = True, handler = h\<rparr>]\<rparr>)"

definition watcher_add :: "nat \<Rightarrow> string \<Rightarrow> proc \<Rightarrow> proc" where
  "watcher_add i path = update_watcher i (\<lambda>w. w\<lparr>paths := paths w @ [path]\<rparr>)"

definition watcher_close :: "nat \<Rightarrow> proc \<Rightarrow> proc" where
  "watcher_close i = update_watcher i (\<lambda>w. w\<lparr>closed := True\<rparr>)"

definition app_on_created :: "addr \<Rightarrow> proc \<Rightarrow> proc" where
  "app_on_created browserWindows p = p\<lparr>created_listeners := created_listeners p @ [browserWindows]\<rparr>"

text \<open>
  \<open>electronReload(glob, mainFile, options)\<close>, statement by statement. The state is returned
  with the outcome, also when the call throws: what was registered before the
  \<open>throw\<close> stays registered. \<open>if (executable)\<close> on a \<open>string | undefined\<close> takes the
  else branch for \<open>undefined\<close> and for the empty string; so does \<open>if (!executable) return\<close>
  in the hard reset handler.
\<close>

definition electronReload :: "env \<Rightarrow> string \<Rightarrow> string \<Rightarrow> options \<Rightarrow> proc \<Rightarrow> outcome \<times> proc" where
  "electronReload env glob mainFile opts p0 =
     (let (browserWindows, p1) = new_array p0;
          (watcher, p2) =
             chokidar_watch glob (assign_ignored [RegExp ignoredPaths, Str mainFile] opts) p1;
          softReset = SoftReset browserWindows;
          executable = electron opts;
          hardReset = HardReset executable (hardResetMethod opts) (electronArgv opts) (appArgv opts);
          p3 = app_on_created browserWindows p2;
          p4 = watcher_on watcher softReset p3
      in case executable of
           None \<Rightarrow> (Returned, p4)
         | Some exe \<Rightarrow>
             if exe = [] then (Returned, p4)
             else if \<not> existsSync env exe then
               (Threw (Error ''Provided electron executable cannot be found or is not executable!''), p4)
             else
               let (hardWatcher, p5) =
                      chokidar_watch mainFile (assign_ignored [RegExp ignoredPaths] opts) p4;
                   p6 = (if forceHardReset opts = Some True
                         then watcher_close watcher (watcher_add hardWatcher glob p5)
                         else p5)
               in (Returned, watcher_once hardWatcher hardReset p6))"

subsection \<open>The event loop\<close>

text \<open>
  What the host delivers after a call: a window was created, a window was closed, a file
  was modified. A string of \<open>ignored\<close> matches a path that is equal to it or that it
  matches as a glob; a watcher emits \<open>change\<close> for a path when it is open, one of its
  watched paths is or matches the path, and no entry of \<open>ignored\<close> matches it. Paths are
  compared as strings, as the watch service compares them: a file is named by the string
  under which the watch service reports it, and that need not be the string \<open>mainFile\<close>
  the caller gave for the same file (a relative \<open>mainFile\<close> under an absolute glob).

  The process is not ended at \<open>app.quit()\<close> or \<open>app.exit()\<close>: events keep being
  delivered, as they are to an application that overrides its quitting (the case the
  comment in \<open>createHardResetHandler\<close> is about).
\<close>

datatype event = WindowCreated window | WindowClosed window | FileChanged string

fun anymatch :: "env \<Rightarrow> matcher \<Rightarrow> string \<Rightarrow> bool" where
  "anymatch env (RegExp t) s = t s"
| "anymatch env (Str g) s = (g = s \<or> picomatch env g s)"

fun ignored_list :: "matcher list option \<Rightarrow> matcher list" where
  "ignored_list None = []"
| "ignored_list (Some ms) = ms"

definition emits :: "env \<Rightarrow> watcher \<Rightarrow> string \<Rightarrow> bool" where
  "emits env w path \<longleftrightarrow>
     \<not> closed w \<and>
     list_ex (\<lambda>g. g = path \<or> picomatch env g path) (paths w) \<and>
     \<not> list_ex (\<lambda>m. anymatch env m path) (ignored_list (ignored (wopts w)))"

text \<open>\<open>emit("change")\<close>: the listeners are called in registration order.\<close>

definition emit :: "env \<Rightarrow> watcher \<Rightarrow> proc \<Rightarrow> proc" where
  "emit env w p = foldl (\<lambda>q l. call env (handler l) q) p (listeners w)"

definition drop_once :: "watcher \<Rightarrow> watcher" where
  "drop_once w = w\<lparr>listeners := filter (\<lambda>l. \<not> once l) (listeners w)\<rparr>"

text \<open>
  One event. A created window is passed to every listener of \<open>browser-window-created\<close>; a
  closed window calls its own \<open>closed\<close> listeners; a modified file makes every watcher
  that emits for it call its listeners, and lose those registered with \<open>once\<close> (no
  handler of the module registers or removes a listener, so when they are removed
  within the event does not matter).
\<close>

fun step :: "env \<Rightarrow> event \<Rightarrow> proc \<Rightarrow> proc" where
  "step env (WindowCreated bw) p =
     foldl (\<lambda>q a. on_browser_window_created a bw q) p (created_listeners p)"
| "step env (WindowClosed bw) p =
     foldl (\<lambda>q l. if fst l = bw then on_closed (snd l) bw q else q) p (closed_listeners p)"
| "step env (FileChanged path) p =
     (let ws = watchers p;
          p' = p\<lparr>watchers := map (\<lambda>w. if emits env w path then drop_once w else w) ws\<rparr>
      in foldl (\<lambda>q w. if emits env w path then emit env w q else q) p' ws)"

fun run :: "env \<Rightarrow> event list \<Rightarrow> proc \<Rightarrow> proc" where
  "run env [] p = p"
| "run env (e # es) p = run env es (step env e p)"

section \<open>Notions used to state the properties\<close>

subsection \<open>Reading the trace\<close>

text \<open>The windows reloaded, the processes spawned and the terminations requested, each in
  trace order.\<close>

fun reloads :: "action list \<Rightarrow> window list" where
  "reloads [] = []"
| "reloads (ReloadIgnoringCache w # t) = w # reloads t"
| "reloads (x # t) = reloads t"

fun spawns :: "action list \<Rightarrow> (string \<times> string list) list" where
  "spawns [] = []"
| "spawns (Spawn exe args d s # t) = (exe, args) # spawns t"
| "spawns (x # t) = spawns t"

fun terminations :: "action list \<Rightarrow> action list" where
  "terminations [] = []"
| "terminations (AppExit # t) = AppExit # terminations t"
| "terminations (AppQuit # t) = AppQuit # terminations t"
| "terminations (x # t) = terminations t"

text \<open>The trace without the reloads: the actions of hard resets.\<close>

fun hard_actions :: "action list \<Rightarrow> action list" where
  "hard_actions [] = []"
| "hard_actions (ReloadIgnoringCache w # t) = hard_actions t"
| "hard_actions (x # t) = x # hard_actions t"

subsection \<open>Window lifecycles\<close>

text \<open>
  The windows a sequence of events creates and closes, and the windows open after it:
  created, and not closed since. The host creates a window object once and closes it at
  most once; \<open>valid_lifecycle\<close> says so of a sequence.
\<close>

fun created_of :: "event list \<Rightarrow> window list" where
  "created_of [] = []"
| "created_of (WindowCreated w # es) = w # created_of es"
| "created_of (e # es) = created_of es"

fun closed_of :: "event list \<Rightarrow> window list" where
  "closed_of [] = []"
| "closed_of (WindowClosed w # es) = w # closed_of es"
| "closed_of (e # es) = closed_of es"

definition valid_lifecycle :: "event list \<Rightarrow> bool" where
  "valid_lifecycle evs \<longleftrightarrow> distinct (created_of evs) \<and> distinct (closed_of evs)"

fun track :: "window set \<Rightarrow> event \<Rightarrow> window set" where
  "track S (WindowCreated w) = insert w S"
| "track S (WindowClosed w) = S - {w}"
| "track S (FileChanged path) = S"

definition open_windows :: "event list \<Rightarrow> window set" where
  "open_windows evs = foldl track {} evs"

subsection \<open>Process states\<close>

text \<open>Every array a listener has captured was allocated: true of the initial process and
  kept by every call and event.\<close>

definition allocated :: "proc \<Rightarrow> bool" where
  "allocated p \<longleftrightarrow>
     list_all (\<lambda>a. a < next_addr p) (created_listeners p) \<and>
     list_all (\<lambda>l. snd l < next_addr p) (closed_listeners p)"

text \<open>The default \<open>options = {}\<close>, and an environment and options to evaluate the model on.\<close>

definition no_options :: options where
  "no_options = \<lparr>electron = None, electronArgv = None, appArgv = None, hardResetMethod = None,
     forceHardReset = None, ignored = None, watchOptions = []\<rparr>"

definition test_env :: env where
  "test_env = \<lparr>appPath = ''/app'', existsSync = (\<lambda>path. path = ''/usr/bin/electron''),
     picomatch = (\<lambda>g path. False)\<rparr>"

definition with_electron :: options where
  "with_electron = no_options\<lparr>electron := Some ''/usr/bin/electron''\<rparr>"

definition missing_executable :: options where
  "missing_executable = no_options\<lparr>electron := Some ''/opt/missing/electron''\<rparr>"

definition empty_executable :: options where
  "empty_executable = no_options\<lparr>electron := Some []\<rparr>"

definition force_options :: options where
  "force_options = no_options\<lparr>electron := Some ''/usr/bin/electron'', forceHardReset := Some True\<rparr>"

definition relaunch_options :: options where
  "relaunch_options = no_options\<lparr>electron := Some ''/usr/bin/electron'',
     electronArgv := Some [''--inspect''], appArgv := Some [''--dev''],
     hardResetMethod := Some Exit\<rparr>"


definition ignore_dist :: options where
  "ignore_dist = no_options\<lparr>ignored := Some [Str ''dist'']\<rparr>"

subsection \<open>Auxiliary notions of the proofs\<close>

text \<open>What the \<open>closed\<close> listener does to the array.\<close>

definition remove_js :: "'a \<Rightarrow> 'a list \<Rightarrow> 'a list" where
  "remove_js x xs = splice1 (indexOf x xs) xs"

text \<open>The actions a handler adds to the trace, and those a watcher adds for a modified file.\<close>

fun effects :: "env \<Rightarrow> (addr \<Rightarrow> window list) \<Rightarrow> handler \<Rightarrow> action list" where
  "effects env arrs (SoftReset a) = map ReloadIgnoringCache (arrs a)"
| "effects env arrs (HardReset executable method eArgv aArgv) =
     (case executable of
        None \<Rightarrow> []
      | Some exe \<Rightarrow>
          if exe = [] then []
          else [Spawn exe (or_empty eArgv @ appPath env # or_empty aArgv) True Inherit, ChildUnref,
                if method = Some Exit then AppExit else AppQuit])"

definition fired :: "env \<Rightarrow> (addr \<Rightarrow> window list) \<Rightarrow> string \<Rightarrow> watcher \<Rightarrow> action list" where
  "fired env arrs path w =
     (if emits env w path then concat (map (\<lambda>l. effects env arrs (handler l)) (listeners w)) else [])"

text \<open>The watchers a call leaves behind.\<close>

definition hard_enabled :: "env \<Rightarrow> options \<Rightarrow> bool" where
  "hard_enabled env opts \<longleftrightarrow>
     (case electron opts of None \<Rightarrow> False | Some exe \<Rightarrow> exe \<noteq> [] \<and> existsSync env exe)"

definition soft_watcher :: "string \<Rightarrow> string \<Rightarrow> options \<Rightarrow> addr \<Rightarrow> bool \<Rightarrow> watcher" where
  "soft_watcher glob mainFile opts a c =
     \<lparr>paths = [glob], wopts = assign_ignored [RegExp ignoredPaths, Str mainFile] opts, closed = c,
      listeners = [\<lparr>once = False, handler = SoftReset a\<rparr>]\<rparr>"

definition hard_watcher :: "string list \<Rightarrow> options \<Rightarrow> watcher" where
  "hard_watcher ps opts =
     \<lparr>paths = ps, wopts = assign_ignored [RegExp ignoredPaths] opts, closed = False,
      listeners = [\<lparr>once = True, handler =
         HardReset (electron opts) (hardResetMethod opts) (electronArgv opts) (appArgv opts)\<rparr>]\<rparr>"

definition new_watchers :: "env \<Rightarrow> string \<Rightarrow> string \<Rightarrow> options \<Rightarrow> addr \<Rightarrow> watcher list" where
  "new_watchers env glob mainFile opts a =
     (if hard_enabled env opts then
        if forceHardReset opts = Some True
        then [soft_watcher glob mainFile opts a True, hard_watcher [mainFile, glob] opts]
        else [soft_watcher glob mainFile opts a False, hard_watcher [mainFile] opts]
      else [soft_watcher glob mainFile opts a False])"

text \<open>The invariant of one call's array \<open>a\<close> after the events \<open>evs\<close>.\<close>

definition tracks :: "addr \<Rightarrow> event list \<Rightarrow> proc \<Rightarrow> bool" where
  "tracks a evs q \<longleftrightarrow>
     count_list (created_listeners q) a = 1 \<and>
     distinct (arrays q a) \<and>
     set (arrays q a) = open_windows evs \<and>
     (\<forall>w. count_list (closed_listeners q) (w, a) = count_list (created_of evs) w)"

text \<open>All that the evolution of the array \<open>a\<close> depends on.\<close>

definition view :: "addr \<Rightarrow> proc \<Rightarrow> window list \<times> nat \<times> (window \<Rightarrow> nat)" where
  "view a p =
     (arrays p a, count_list (created_listeners p) a, (\<lambda>w. count_list (closed_listeners p) (w, a)))"

text \<open>Invariants of watchers.\<close>

fun is_hard :: "handler \<Rightarrow> bool" where
  "is_hard (HardReset executable method eArgv aArgv) = True"
| "is_hard (SoftReset a) = False"

definition pending :: "watcher \<Rightarrow> nat" where
  "pending w = length (filter (\<lambda>l. is_hard (handler l)) (listeners w))"

definition once_hard :: "watcher \<Rightarrow> bool" where
  "once_hard w = list_all (\<lambda>l. is_hard (handler l) \<longrightarrow> once l) (listeners w)"

definition soft_silent :: "watcher \<Rightarrow> bool" where
  "soft_silent w \<longleftrightarrow> closed w \<or> list_all (\<lambda>l. is_hard (handler l)) (listeners w)"


definition evolved :: "watcher \<Rightarrow> watcher \<Rightarrow> bool" where
  "evolved w' w \<longleftrightarrow> w' = w \<or> w' = drop_once w"

text \<open>The three phases of the watchers of a call in a fresh process: no hard watcher, hard
  watcher waiting, hard watcher spent.\<close>

definition phase :: "env \<Rightarrow> string \<Rightarrow> string \<Rightarrow> options \<Rightarrow> proc \<Rightarrow> bool" where
  "phase env glob mainFile opts q \<longleftrightarrow>
     (\<exists>c. watchers q = [soft_watcher glob mainFile opts 0 c] \<and> hard_actions (trace q) = []) \<or>
     (\<exists>c ps. watchers q = [soft_watcher glob mainFile opts 0 c, hard_watcher ps opts] \<and>
        hard_actions (trace q) = []) \<or>
     (\<exists>c ps. watchers q = [soft_watcher glob mainFile opts 0 c, drop_once (hard_watcher ps opts)] \<and>
        hard_actions (trace q) =
          effects env (\<lambda>a. [])
            (HardReset (electron opts) (hardResetMethod opts) (electronArgv opts) (appArgv opts)))"

section \<open>Lemmas\<close>

subsection \<open>indexOf and splice\<close>

lemma indexOf_absent: "x \<notin> set xs \<Longrightarrow> indexOf x xs = -1"
  by (induction xs) auto

lemma indexOf_present: "x \<in> set xs \<Longrightarrow> 0 \<le> indexOf x xs \<and> indexOf x xs < int (length xs)"
  by (induction xs) (auto simp: Let_def)

lemma splice1_indexOf: "x \<in> set xs \<Longrightarrow> splice1 (indexOf x xs) xs = remove1 x xs"
proof (induction xs)
  case Nil
  then show ?case by simp
next
  case (Cons y ys)
  show ?case
  proof (cases "x = y")
    case True
    then show ?thesis by (simp add: splice1_def)
  next
    case False
    with Cons.prems have xin: "x \<in> set ys" by simp
    from indexOf_present[OF xin] have b: "0 \<le> indexOf x ys" "indexOf x ys < int (length ys)" by auto
    have "splice1 (indexOf x ys + 1) (y # ys) = y # splice1 (indexOf x ys) ys"
      using b by (simp add: splice1_def Let_def nat_add_distrib min_def)
    with False b Cons.IH[OF xin] show ?thesis by (simp add: Let_def)
  qed
qed

lemma splice1_absent: "x \<notin> set xs \<Longrightarrow> splice1 (indexOf x xs) xs = butlast xs"
  apply (simp add: indexOf_absent splice1_def Let_def max_def butlast_conv_take)
  apply (cases xs rule: rev_cases)
   apply (auto simp: nat_diff_distrib)
  done

subsection \<open>Handlers and events in closed form\<close>

lemma softResetHandler_eq:
  "softResetHandler a p = p\<lparr>trace := trace p @ map ReloadIgnoringCache (arrays p a)\<rparr>"
proof -
  have "foldl (\<lambda>q bw. q\<lparr>trace := trace q @ [ReloadIgnoringCache bw]\<rparr>) p xs =
        p\<lparr>trace := trace p @ map ReloadIgnoringCache xs\<rparr>" for xs
    by (induction xs arbitrary: p) auto
  then show ?thesis by (simp add: softResetHandler_def)
qed

lemma call_eq: "call env h p = p\<lparr>trace := trace p @ effects env (arrays p) h\<rparr>"
  by (cases h) (auto simp: softResetHandler_eq createHardResetHandler_def Let_def split: option.splits)

lemma emit_eq:
  "emit env w p = p\<lparr>trace := trace p @ concat (map (\<lambda>l. effects env (arrays p) (handler l)) (listeners w))\<rparr>"
proof -
  have "foldl (\<lambda>q l. call env (handler l) q) p ls =
        p\<lparr>trace := trace p @ concat (map (\<lambda>l. effects env (arrays p) (handler l)) ls)\<rparr>"
    for ls :: "listener list"
    by (induction ls arbitrary: p) (auto simp: call_eq)
  then show ?thesis by (simp add: emit_def)
qed

lemma step_FileChanged:
  "step env (FileChanged path) p =
     p\<lparr>watchers := map (\<lambda>w. if emits env w path then drop_once w else w) (watchers p),
       trace := trace p @ concat (map (fired env (arrays p) path) (watchers p))\<rparr>"
proof -
  have "foldl (\<lambda>q w. if emits env w path then emit env w q else q) q ws =
        q\<lparr>trace := trace q @ concat (map (fired env (arrays q) path) ws)\<rparr>" for q ws
    by (induction ws arbitrary: q) (auto simp: emit_eq fired_def)
  then show ?thesis by (simp add: Let_def)
qed

lemma created_fold:
  "foldl (\<lambda>q a. on_browser_window_created a bw q) p cl =
     p\<lparr>arrays := (\<lambda>a. arrays p a @ replicate (count_list cl a) bw),
       closed_listeners := closed_listeners p @ map (Pair bw) cl\<rparr>"
proof (induction cl arbitrary: p)
  case Nil
  then show ?case by simp
next
  case (Cons c cl)
  show ?case
    by (simp add: Cons.IH) (auto simp: on_browser_window_created_def fun_eq_iff replicate_app_Cons_same)
qed

lemma step_WindowCreated:
  "step env (WindowCreated bw) p =
     p\<lparr>arrays := (\<lambda>a. arrays p a @ replicate (count_list (created_listeners p) a) bw),
       closed_listeners := closed_listeners p @ map (Pair bw) (created_listeners p)\<rparr>"
  by (simp add: created_fold)

lemma closed_fold:
  "foldl (\<lambda>q l. if fst l = bw then on_closed (snd l) bw q else q) p ls =
     p\<lparr>arrays := (\<lambda>a. (remove_js bw ^^ count_list ls (bw, a)) (arrays p a))\<rparr>"
proof (induction ls arbitrary: p)
  case Nil
  then show ?case by simp
next
  case (Cons l ls)
  obtain w b where l: "l = (w, b)" by (cases l)
  have eq: "(\<lambda>a. (remove_js bw ^^ count_list ls (bw, a))
                 (if a = b then remove_js bw (arrays p b) else arrays p a)) =
            (\<lambda>a. (remove_js bw ^^ (if b = a then count_list ls (bw, a) + 1 else count_list ls (bw, a)))
                 (arrays p a))"
    by (auto simp: fun_eq_iff funpow_swap1)
  show ?case
  proof (cases "w = bw")
    case True
    have "on_closed b bw p = p\<lparr>arrays := (arrays p)(b := remove_js bw (arrays p b))\<rparr>"
      by (simp add: on_closed_def remove_js_def Let_def)
    with True l eq show ?thesis by (simp add: Cons.IH fun_upd_def)
  next
    case False
    with l show ?thesis by (simp add: Cons.IH)
  qed
qed

lemma step_WindowClosed:
  "step env (WindowClosed bw) p =
     p\<lparr>arrays := (\<lambda>a. (remove_js bw ^^ count_list (closed_listeners p) (bw, a)) (arrays p a))\<rparr>"
  by (simp add: closed_fold)

declare step.simps [simp del]

subsection \<open>The state a call leaves\<close>

lemma upd_app0: "(xs @ y # ys)[length xs := v] = xs @ v # ys"
  by (simp add: list_update_append)

lemma upd_app1: "(xs @ y # z # ys)[Suc (length xs) := v] = xs @ y # v # ys"
  by (simp add: list_update_append)

lemma nth_app1: "(xs @ y # z # ys) ! Suc (length xs) = z"
  by (simp add: nth_append)

lemma electronReload_state:
  "snd (electronReload env glob mainFile opts p0) =
     p0\<lparr>arrays := (arrays p0)(next_addr p0 := []),
        next_addr := Suc (next_addr p0),
        created_listeners := created_listeners p0 @ [next_addr p0],
        watchers := watchers p0 @ new_watchers env glob mainFile opts (next_addr p0)\<rparr>"
  by (auto simp: electronReload_def new_array_def chokidar_watch_def app_on_created_def
      watcher_on_def watcher_once_def watcher_add_def watcher_close_def update_watcher_def
      new_watchers_def hard_enabled_def soft_watcher_def hard_watcher_def Let_def
      upd_app0 upd_app1 nth_app1
      split: option.splits)

lemma electronReload_outcome:
  "fst (electronReload env glob mainFile opts p0) =
     (case electron opts of
        None \<Rightarrow> Returned
      | Some exe \<Rightarrow>
          if exe \<noteq> [] \<and> \<not> existsSync env exe
          then Threw (Error ''Provided electron executable cannot be found or is not executable!'')
          else Returned)"
  by (auto simp: electronReload_def new_array_def chokidar_watch_def Let_def split: option.splits)

subsection \<open>The invariant of an array\<close>

lemma created_of_append: "created_of (xs @ ys) = created_of xs @ created_of ys"
  by (induction xs rule: created_of.induct) auto

lemma closed_of_append: "closed_of (xs @ ys) = closed_of xs @ closed_of ys"
  by (induction xs rule: closed_of.induct) auto

lemma run_append: "run env (xs @ ys) p = run env ys (run env xs p)"
  by (induction xs arbitrary: p) auto

lemma open_windows_snoc: "open_windows (evs @ [e]) = track (open_windows evs) e"
  by (simp add: open_windows_def)

lemma open_subset_created: "open_windows evs \<subseteq> set (created_of evs)"
proof (induction evs rule: rev_induct)
  case Nil
  then show ?case by (simp add: open_windows_def)
next
  case (snoc e evs)
  then show ?case by (cases e) (auto simp: open_windows_snoc created_of_append)
qed

lemma created_not_closed_open:
  "w \<in> set (created_of evs) \<Longrightarrow> w \<notin> set (closed_of evs) \<Longrightarrow> w \<in> open_windows evs"
proof (induction evs rule: rev_induct)
  case Nil
  then show ?case by simp
next
  case (snoc e evs)
  then show ?case
    by (cases e) (auto simp: open_windows_snoc created_of_append closed_of_append)
qed

lemma count_list_Pair:
  "count_list (map (Pair bw) cl) (w, a) = (if w = bw then count_list cl a else 0)"
  by (induction cl) auto

lemma count_list_distinct: "distinct xs \<Longrightarrow> x \<in> set xs \<Longrightarrow> count_list xs x = 1"
  by (induction xs) auto

lemma remove_js_present: "x \<in> set xs \<Longrightarrow> remove_js x xs = remove1 x xs"
  by (simp add: remove_js_def splice1_indexOf)

lemma tracks_step:
  assumes inv: "tracks a evs q" and valid: "valid_lifecycle (evs @ [e])"
  shows "tracks a (evs @ [e]) (step env e q)"
proof (cases e)
  case (WindowCreated w)
  from valid WindowCreated have fresh: "w \<notin> set (created_of evs)"
    by (simp add: valid_lifecycle_def created_of_append)
  with open_subset_created[of evs] inv have "w \<notin> set (arrays q a)"
    by (auto simp: tracks_def)
  with inv WindowCreated show ?thesis
    by (auto simp: tracks_def step_WindowCreated open_windows_snoc created_of_append count_list_Pair)
next
  case (WindowClosed w)
  from valid WindowClosed have fresh: "w \<notin> set (closed_of evs)"
    by (simp add: valid_lifecycle_def closed_of_append)
  from valid have dc: "distinct (created_of evs)"
    by (simp add: valid_lifecycle_def created_of_append)
  show ?thesis
  proof (cases "w \<in> set (created_of evs)")
    case True
    with dc have c1: "count_list (created_of evs) w = 1"
      by (simp add: count_list_distinct)
    from True fresh have "w \<in> open_windows evs" by (rule created_not_closed_open)
    with inv have win: "w \<in> set (arrays q a)" by (simp add: tracks_def)
    with inv c1 WindowClosed show ?thesis
      by (auto simp: tracks_def step_WindowClosed open_windows_snoc created_of_append
          remove_js_present)
  next
    case False
    then have c0: "count_list (created_of evs) w = 0" by simp
    from False open_subset_created[of evs] have "w \<notin> open_windows evs" by auto
    with inv c0 WindowClosed show ?thesis
      by (auto simp: tracks_def step_WindowClosed open_windows_snoc created_of_append)
  qed
next
  case (FileChanged path)
  with inv show ?thesis
    by (simp add: tracks_def step_FileChanged open_windows_snoc created_of_append)
qed

lemma tracks_run:
  assumes "tracks a [] p" and "valid_lifecycle evs"
  shows "tracks a evs (run env evs p)"
  using assms(2)
proof (induction evs rule: rev_induct)
  case Nil
  with assms(1) show ?case by simp
next
  case (snoc e evs)
  from snoc.prems have "valid_lifecycle evs"
    by (simp add: valid_lifecycle_def created_of_append closed_of_append)
  with snoc.IH have "tracks a evs (run env evs p)" .
  from tracks_step[OF this snoc.prems] show ?case by (simp add: run_append)
qed

subsection \<open>Projections of the trace\<close>

lemma reloads_append: "reloads (s @ t) = reloads s @ reloads t"
  by (induction s rule: reloads.induct) auto

lemma spawns_append: "spawns (s @ t) = spawns s @ spawns t"
  by (induction s rule: spawns.induct) auto


lemma reloads_map: "reloads (map ReloadIgnoringCache ws) = ws"
  by (induction ws) auto

lemma spawns_map: "spawns (map ReloadIgnoringCache ws) = []"
  by (induction ws) auto


lemma reloads_hard: "is_hard h \<Longrightarrow> reloads (effects env arrs h) = []"
  by (cases h) (auto split: option.splits)



lemma spawns_effects_le: "length (spawns (effects env arrs h)) \<le> (if is_hard h then 1 else 0)"
  by (cases h) (auto simp: spawns_map split: option.splits)

subsection \<open>What events leave unchanged\<close>

lemma emits_drop_once: "emits env (drop_once w) path = emits env w path"
  by (simp add: emits_def drop_once_def)

lemma step_next_addr: "next_addr (step env e p) = next_addr p"
  by (cases e) (simp_all add: step_WindowCreated step_WindowClosed step_FileChanged)

lemma step_created_listeners: "created_listeners (step env e p) = created_listeners p"
  by (cases e) (simp_all add: step_WindowCreated step_WindowClosed step_FileChanged)

lemma run_next_addr: "next_addr (run env evs p) = next_addr p"
  by (induction evs arbitrary: p) (auto simp: step_next_addr)

lemma run_created_listeners: "created_listeners (run env evs p) = created_listeners p"
  by (induction evs arbitrary: p) (auto simp: step_created_listeners)

lemma step_emits:
  "map (\<lambda>w. emits env w path) (watchers (step env e p)) = map (\<lambda>w. emits env w path) (watchers p)"
  by (cases e) (simp_all add: step_WindowCreated step_WindowClosed step_FileChanged emits_drop_once
      cong: if_cong)

lemma run_emits:
  "map (\<lambda>w. emits env w path) (watchers (run env evs p)) = map (\<lambda>w. emits env w path) (watchers p)"
  by (induction evs arbitrary: p) (auto simp: step_emits)

subsection \<open>A hard reset handler registered with once is called once\<close>

text \<open>Each spawn uses up a pending hard reset listener.\<close>

lemma spawns_listeners_le:
  "length (spawns (concat (map (\<lambda>l. effects env arrs (handler l)) ls))) \<le>
   length (filter (\<lambda>l. is_hard (handler l)) ls)"
proof (induction ls)
  case Nil
  then show ?case by simp
next
  case (Cons l ls)
  with spawns_effects_le[of env arrs "handler l"] show ?case
    by (auto simp: spawns_append split: if_splits)
qed

lemma pending_drop_once: "once_hard w \<Longrightarrow> pending (drop_once w) = 0"
  by (auto simp: once_hard_def pending_def drop_once_def list_all_iff filter_empty_conv)

lemma once_hard_drop_once: "once_hard w \<Longrightarrow> once_hard (drop_once w)"
  by (auto simp: once_hard_def drop_once_def list_all_iff)

lemma fired_budget:
  "once_hard w \<Longrightarrow>
   length (spawns (fired env arrs path w)) + pending (if emits env w path then drop_once w else w)
     \<le> pending w"
  using spawns_listeners_le[of env arrs "listeners w"]
  by (auto simp: fired_def pending_drop_once) (simp add: pending_def)

lemma fired_budget_all:
  "list_all once_hard ws \<Longrightarrow>
   length (spawns (concat (map (fired env arrs path) ws))) +
   sum_list (map pending (map (\<lambda>w. if emits env w path then drop_once w else w) ws))
     \<le> sum_list (map pending ws)"
proof (induction ws)
  case Nil
  then show ?case by simp
next
  case (Cons w ws)
  from Cons.prems have "once_hard w" and "list_all once_hard ws" by simp_all
  with fired_budget[of w env arrs path] Cons.IH show ?case
    by (simp add: spawns_append del: map_map)
qed

lemma step_budget:
  assumes "list_all once_hard (watchers p)"
  shows "length (spawns (trace (step env e p))) + sum_list (map pending (watchers (step env e p)))
           \<le> length (spawns (trace p)) + sum_list (map pending (watchers p))"
    and "list_all once_hard (watchers (step env e p))"
proof -
  show "length (spawns (trace (step env e p))) + sum_list (map pending (watchers (step env e p)))
           \<le> length (spawns (trace p)) + sum_list (map pending (watchers p))"
  proof (cases e)
    case (FileChanged path)
    with fired_budget_all[OF assms, of env "arrays p" path] show ?thesis
      by (simp add: step_FileChanged spawns_append del: map_map)
  qed (simp_all add: step_WindowCreated step_WindowClosed)
  show "list_all once_hard (watchers (step env e p))"
    using assms
    by (cases e)
      (auto simp: step_WindowCreated step_WindowClosed step_FileChanged list_all_iff
        once_hard_drop_once)
qed

lemma run_budget:
  "list_all once_hard (watchers p) \<Longrightarrow>
   length (spawns (trace (run env evs p))) + sum_list (map pending (watchers (run env evs p)))
     \<le> length (spawns (trace p)) + sum_list (map pending (watchers p))"
proof (induction evs arbitrary: p)
  case Nil
  then show ?case by simp
next
  case (Cons e evs)
  from step_budget[OF Cons.prems, of env e] Cons.IH[of "step env e p"] show ?case by simp
qed

subsection \<open>Closed watchers and hard reset handlers reload nothing\<close>

lemma reloads_hard_listeners:
  "list_all (\<lambda>l. is_hard (handler l)) ls \<Longrightarrow>
   reloads (concat (map (\<lambda>l. effects env arrs (handler l)) ls)) = []"
  by (induction ls) (auto simp: reloads_append reloads_hard)

lemma fired_silent: "soft_silent w \<Longrightarrow> reloads (fired env arrs path w) = []"
  by (auto simp: soft_silent_def fired_def emits_def reloads_hard_listeners)

lemma fired_silent_all:
  "list_all soft_silent ws \<Longrightarrow> reloads (concat (map (fired env arrs path) ws)) = []"
  by (induction ws) (auto simp: reloads_append fired_silent)

lemma soft_silent_drop_once: "soft_silent w \<Longrightarrow> soft_silent (drop_once w)"
  by (auto simp: soft_silent_def drop_once_def list_all_iff)

lemma step_silent:
  assumes "list_all soft_silent (watchers p)"
  shows "reloads (trace (step env e p)) = reloads (trace p)"
    and "list_all soft_silent (watchers (step env e p))"
  using assms
  by (cases e; auto simp: step_WindowCreated step_WindowClosed step_FileChanged reloads_append
      fired_silent_all list_all_iff soft_silent_drop_once)+

lemma run_silent:
  "list_all soft_silent (watchers p) \<Longrightarrow> reloads (trace (run env evs p)) = reloads (trace p)"
proof (induction evs arbitrary: p)
  case Nil
  then show ?case by simp
next
  case (Cons e evs)
  from step_silent[OF Cons.prems, of env e] Cons.IH[of "step env e p"] show ?case by simp
qed

subsection \<open>Soft reset handlers spawn and terminate nothing\<close>







subsection \<open>Allocation, and the independence of arrays\<close>

lemma allocated_step: "allocated p \<Longrightarrow> allocated (step env e p)"
  by (cases e)
    (auto simp: allocated_def step_WindowCreated step_WindowClosed step_FileChanged list_all_iff)

lemma allocated_run: "allocated p \<Longrightarrow> allocated (run env evs p)"
  by (induction evs arbitrary: p) (auto simp: allocated_step)

lemma allocated_electronReload:
  "allocated p \<Longrightarrow> allocated (snd (electronReload env glob mainFile opts p))"
  by (auto simp: allocated_def electronReload_state list_all_iff less_Suc_eq)

lemma allocated_fresh:
  "allocated p \<Longrightarrow>
   count_list (created_listeners p) (next_addr p) = 0 \<and>
   count_list (closed_listeners p) (w, next_addr p) = 0"
  by (auto simp: allocated_def list_all_iff count_list_0_iff)

lemma view_step:
  assumes "view a p = view b p'"
  shows "view a (step env e p) = view b (step env' e p')"
proof -
  from assms have eq: "arrays p a = arrays p' b"
    "count_list (created_listeners p) a = count_list (created_listeners p') b"
    "\<And>w. count_list (closed_listeners p) (w, a) = count_list (closed_listeners p') (w, b)"
    by (auto simp: view_def fun_eq_iff)
  show ?thesis
    by (cases e)
      (simp_all add: view_def step_WindowCreated step_WindowClosed step_FileChanged eq
        count_list_Pair fun_eq_iff)
qed

lemma view_run: "view a p = view b p' \<Longrightarrow> view a (run env evs p) = view b (run env' evs p')"
proof (induction evs arbitrary: p p')
  case Nil
  then show ?case by simp
next
  case (Cons e evs)
  from Cons.prems have "view a (step env e p) = view b (step env' e p')" by (rule view_step)
  then show ?case by (simp add: Cons.IH)
qed

lemma view_arrays: "view a p = view b p' \<Longrightarrow> arrays p a = arrays p' b"
  by (simp add: view_def)

lemma view_new:
  "allocated p \<Longrightarrow>
   view (next_addr p) (snd (electronReload env glob mainFile opts p)) = ([], 1, (\<lambda>w. 0))"
  using allocated_fresh[of p] by (simp add: view_def electronReload_state)

lemma view_old:
  "a \<noteq> next_addr p \<Longrightarrow> view a (snd (electronReload env glob mainFile opts p)) = view a p"
  by (simp add: view_def electronReload_state)

lemma tracks_new:
  "allocated p \<Longrightarrow> tracks (next_addr p) [] (snd (electronReload env glob mainFile opts p))"
  using allocated_fresh[of p]
  by (simp add: tracks_def electronReload_state open_windows_def)

subsection \<open>How the watchers change\<close>

lemma drop_once_idem: "drop_once (drop_once w) = drop_once w"
  by (simp add: drop_once_def)

lemma step_evolved: "list_all2 evolved (watchers (step env e p)) (watchers p)"
  by (cases e)
    (auto simp: step_WindowCreated step_WindowClosed step_FileChanged list_all2_map1 evolved_def
      intro!: list_all2_refl list.rel_refl)

lemma evolved_trans: "evolved w'' w' \<Longrightarrow> evolved w' w \<Longrightarrow> evolved w'' w"
  by (auto simp: evolved_def drop_once_idem)

lemma run_evolved: "list_all2 evolved (watchers (run env evs p)) (watchers p)"
proof (induction evs arbitrary: p)
  case Nil
  then show ?case by (simp add: evolved_def list.rel_refl)
next
  case (Cons e evs)
  have "list_all2 evolved (watchers (run env evs (step env e p))) (watchers (step env e p))"
    by (rule Cons.IH)
  from list_all2_trans[of evolved evolved evolved, OF _ this step_evolved]
  show ?case using evolved_trans by auto
qed
subsection \<open>A call in a fresh process\<close>

lemma proc0_allocated: "allocated proc0"
  by (simp add: allocated_def proc0_def)

lemma electronReload_proc0:
  "snd (electronReload env glob mainFile opts proc0) =
     proc0\<lparr>next_addr := 1, created_listeners := [0],
            watchers := new_watchers env glob mainFile opts 0\<rparr>"
  by (simp add: electronReload_state) (simp add: proc0_def fun_eq_iff)

lemma new_watchers_once_hard: "list_all once_hard (new_watchers env glob mainFile opts a)"
  by (simp add: new_watchers_def once_hard_def soft_watcher_def hard_watcher_def)

lemma new_watchers_pending:
  "sum_list (map pending (new_watchers env glob mainFile opts a)) \<le> 1"
  by (simp add: new_watchers_def pending_def soft_watcher_def hard_watcher_def)

lemma evolved_soft_watcher:
  "evolved w (soft_watcher glob mainFile opts a c) \<Longrightarrow> w = soft_watcher glob mainFile opts a c"
  by (auto simp: evolved_def drop_once_def soft_watcher_def)

lemma evolved_hard_watcher:
  "evolved w (hard_watcher ps opts) \<Longrightarrow> list_all (\<lambda>l. is_hard (handler l)) (listeners w)"
  by (auto simp: evolved_def drop_once_def hard_watcher_def)

lemma run_watchers_shape:
  "\<exists>c ws. watchers (run env evs (snd (electronReload env glob mainFile opts proc0))) =
            soft_watcher glob mainFile opts 0 c # ws \<and>
          list_all soft_silent ws"
proof -
  let ?p = "snd (electronReload env glob mainFile opts proc0)"
  have ev: "list_all2 evolved (watchers (run env evs ?p)) (new_watchers env glob mainFile opts 0)"
    using run_evolved[of env evs ?p] by (simp add: electronReload_proc0)
  then show ?thesis
    by (auto simp: new_watchers_def list_all2_Cons2 soft_silent_def
        dest!: evolved_soft_watcher evolved_hard_watcher split: if_splits)
qed

lemma hard_actions_append: "hard_actions (s @ t) = hard_actions s @ hard_actions t"
  by (induction s rule: hard_actions.induct) auto

lemma hard_actions_map: "hard_actions (map ReloadIgnoringCache ws) = []"
  by (induction ws) auto

lemma hard_actions_effects:
  "hard_actions (effects env arrs (HardReset e m ea aa)) = effects env (\<lambda>a. []) (HardReset e m ea aa)"
  by (auto split: option.splits)

lemma spawns_hard_actions: "spawns (hard_actions t) = spawns t"
  by (induction t rule: hard_actions.induct) auto

lemma terminations_hard_actions: "terminations (hard_actions t) = terminations t"
  by (induction t rule: hard_actions.induct) auto

lemma fired_soft_watcher:
  "hard_actions (fired env arrs path (soft_watcher glob mainFile opts a c)) = []"
  by (simp add: fired_def soft_watcher_def hard_actions_map)

lemma fired_hard_watcher:
  "hard_actions (fired env arrs path (hard_watcher ps opts)) =
     (if emits env (hard_watcher ps opts) path
      then effects env (\<lambda>a. [])
             (HardReset (electron opts) (hardResetMethod opts) (electronArgv opts) (appArgv opts))
      else [])"
  by (simp add: fired_def hard_watcher_def hard_actions_effects del: effects.simps)

lemma fired_spent_watcher: "fired env arrs path (drop_once (hard_watcher ps opts)) = []"
  by (simp add: fired_def drop_once_def hard_watcher_def)

lemma drop_once_soft_watcher:
  "drop_once (soft_watcher glob mainFile opts a c) = soft_watcher glob mainFile opts a c"
  by (simp add: drop_once_def soft_watcher_def)

lemma phase_step:
  assumes "phase env glob mainFile opts q"
  shows "phase env glob mainFile opts (step env e q)"
proof (cases e)
  case (WindowCreated w)
  with assms show ?thesis by (simp add: phase_def step_WindowCreated del: effects.simps)
next
  case (WindowClosed w)
  with assms show ?thesis by (simp add: phase_def step_WindowClosed del: effects.simps)
next
  case (FileChanged path)
  from assms consider
    (soft) c where "watchers q = [soft_watcher glob mainFile opts 0 c]" "hard_actions (trace q) = []"
  | (armed) c ps where "watchers q = [soft_watcher glob mainFile opts 0 c, hard_watcher ps opts]"
      "hard_actions (trace q) = []"
  | (spent) c ps where
      "watchers q = [soft_watcher glob mainFile opts 0 c, drop_once (hard_watcher ps opts)]"
      "hard_actions (trace q) = effects env (\<lambda>a. [])
         (HardReset (electron opts) (hardResetMethod opts) (electronArgv opts) (appArgv opts))"
    by (auto simp: phase_def)
  then show ?thesis
  proof cases
    case soft
    with FileChanged show ?thesis
      by (auto simp add: phase_def step_FileChanged hard_actions_append fired_soft_watcher
          drop_once_soft_watcher simp del: effects.simps)
  next
    case armed
    with FileChanged show ?thesis
      by (auto simp add: phase_def step_FileChanged hard_actions_append fired_soft_watcher
          fired_hard_watcher drop_once_soft_watcher simp del: effects.simps)
  next
    case spent
    with FileChanged show ?thesis
      by (auto simp add: phase_def step_FileChanged hard_actions_append fired_soft_watcher
          fired_spent_watcher drop_once_soft_watcher drop_once_idem simp del: effects.simps)
  qed
qed

lemma phase_run: "phase env glob mainFile opts p \<Longrightarrow> phase env glob mainFile opts (run env evs p)"
  by (induction evs arbitrary: p) (auto simp: phase_step)

lemma phase_electronReload:
  "phase env glob mainFile opts (snd (electronReload env glob mainFile opts proc0))"
  by (simp add: electronReload_proc0) (auto simp: phase_def new_watchers_def proc0_def)

lemma run_hard_actions:
  "hard_actions (trace (run env evs (snd (electronReload env glob mainFile opts proc0)))) = [] \<or>
   hard_actions (trace (run env evs (snd (electronReload env glob mainFile opts proc0)))) =
     effects env (\<lambda>a. [])
       (HardReset (electron opts) (hardResetMethod opts) (electronArgv opts) (appArgv opts))"
  using phase_run[OF phase_electronReload, of env glob mainFile opts evs]
  by (auto simp add: phase_def simp del: effects.simps)

section \<open>The properties\<close>

text \<open>
  C1, as amended. A call whose \<open>electron\<close> option is a non-empty path that fails
  \<open>fs.existsSync\<close> throws the configuration error, and it throws after the soft watcher over
  the glob was created and given its continuous change handler, and after the listener
  for created windows was registered: the state the call leaves behind has exactly one
  new watcher, open, and no hard watcher.
\<close>

theorem missing_executable_throws:
  assumes "electron opts = Some exe" and "exe \<noteq> []" and "\<not> existsSync env exe"
  shows "electronReload env glob mainFile opts p0 =
     (Threw (Error ''Provided electron executable cannot be found or is not executable!''),
      p0\<lparr>arrays := (arrays p0)(next_addr p0 := []),
         next_addr := Suc (next_addr p0),
         created_listeners := created_listeners p0 @ [next_addr p0],
         watchers := watchers p0 @
           [\<lparr>paths = [glob],
             wopts = assign_ignored [RegExp ignoredPaths, Str mainFile] opts,
             closed = False,
             listeners = [\<lparr>once = False, handler = SoftReset (next_addr p0)\<rparr>]\<rparr>]\<rparr>)"
proof (rule prod_eqI)
  show "fst (electronReload env glob mainFile opts p0) =
        fst (Threw (Error ''Provided electron executable cannot be found or is not executable!''),
      p0\<lparr>arrays := (arrays p0)(next_addr p0 := []),
         next_addr := Suc (next_addr p0),
         created_listeners := created_listeners p0 @ [next_addr p0],
         watchers := watchers p0 @
           [\<lparr>paths = [glob],
             wopts = assign_ignored [RegExp ignoredPaths, Str mainFile] opts,
             closed = False,
             listeners = [\<lparr>once = False, handler = SoftReset (next_addr p0)\<rparr>]\<rparr>]\<rparr>)"
    using assms by (simp add: electronReload_outcome)
  show "snd (electronReload env glob mainFile opts p0) =
        snd (Threw (Error ''Provided electron executable cannot be found or is not executable!''),
      p0\<lparr>arrays := (arrays p0)(next_addr p0 := []),
         next_addr := Suc (next_addr p0),
         created_listeners := created_listeners p0 @ [next_addr p0],
         watchers := watchers p0 @
           [\<lparr>paths = [glob],
             wopts = assign_ignored [RegExp ignoredPaths, Str mainFile] opts,
             closed = False,
             listeners = [\<lparr>once = False, handler = SoftReset (next_addr p0)\<rparr>]\<rparr>]\<rparr>)"
    using assms
    by (simp add: electronReload_state new_watchers_def hard_enabled_def soft_watcher_def)
qed

theorem missing_executable_throws_witness:
  "electron missing_executable = Some ''/opt/missing/electron'' \<and>
   ''/opt/missing/electron'' \<noteq> [] \<and>
   \<not> existsSync test_env ''/opt/missing/electron'' \<and>
   fst (electronReload test_env ''renderer.js'' ''main.js'' missing_executable proc0) =
     Threw (Error ''Provided electron executable cannot be found or is not executable!'') \<and>
   map closed (watchers (snd (electronReload test_env ''renderer.js'' ''main.js''
                                missing_executable proc0))) = [False]"
proof -
  have h1: "electron missing_executable = Some ''/opt/missing/electron''"
    by (simp add: missing_executable_def no_options_def)
  have h2: "''/opt/missing/electron'' \<noteq> []" by simp
  have h3: "\<not> existsSync test_env ''/opt/missing/electron''" by (simp add: test_env_def)
  from missing_executable_throws[OF h1 h2 h3, of "''renderer.js''" "''main.js''" proc0] h1 h2 h3
  show ?thesis by (simp add: proc0_def)
qed

text \<open>
  C1, as stated, fails: with a path that does not exist the call throws, yet the soft
  watcher is there and, once a window exists, a change of a watched file reloads it.
  With the empty string as path, which does not exist either, the call returns.
\<close>

theorem throw_after_soft_watch_counterexample:
  "fst (electronReload test_env ''renderer.js'' ''main.js'' missing_executable proc0) =
     Threw (Error ''Provided electron executable cannot be found or is not executable!'') \<and>
   map paths (watchers (snd (electronReload test_env ''renderer.js'' ''main.js''
                               missing_executable proc0))) = [[''renderer.js'']] \<and>
   map closed (watchers (snd (electronReload test_env ''renderer.js'' ''main.js''
                                missing_executable proc0))) = [False] \<and>
   trace (run test_env [WindowCreated 7, FileChanged ''renderer.js'']
            (snd (electronReload test_env ''renderer.js'' ''main.js'' missing_executable proc0))) =
     [ReloadIgnoringCache 7] \<and>
   \<not> existsSync test_env [] \<and>
   fst (electronReload test_env ''renderer.js'' ''main.js'' empty_executable proc0) = Returned"
  by code_simp

text \<open>
  C2. When the \<open>electron\<close> option is a non-empty path, \<open>forceHardReset\<close> is \<open>true\<close> and the
  call returns, the hard watcher watches the entry-point file and the glob, the soft
  watcher is closed, and no sequence of later events makes any window reload.
\<close>

theorem force_hard_reset_closes_soft_watch:
  assumes "electron opts = Some exe" and "exe \<noteq> []"
    and "forceHardReset opts = Some True"
    and "fst (electronReload env glob mainFile opts proc0) = Returned"
  shows "map paths (watchers (snd (electronReload env glob mainFile opts proc0))) =
           [[glob], [mainFile, glob]] \<and>
         map closed (watchers (snd (electronReload env glob mainFile opts proc0))) =
           [True, False] \<and>
         reloads (trace (run env evs (snd (electronReload env glob mainFile opts proc0)))) = []"
proof -
  let ?p = "snd (electronReload env glob mainFile opts proc0)"
  from assms have "existsSync env exe"
    by (simp add: electronReload_outcome split: if_splits)
  with assms have ws: "watchers ?p =
      [soft_watcher glob mainFile opts 0 True, hard_watcher [mainFile, glob] opts]"
    by (simp add: electronReload_proc0 new_watchers_def hard_enabled_def)
  then have "list_all soft_silent (watchers ?p)"
    by (simp add: soft_silent_def soft_watcher_def hard_watcher_def)
  then have "reloads (trace (run env evs ?p)) = reloads (trace ?p)"
    by (rule run_silent)
  also have "\<dots> = []"
    by (simp add: electronReload_proc0) (simp add: proc0_def)
  finally have "reloads (trace (run env evs ?p)) = []" .
  with ws show ?thesis by (simp add: soft_watcher_def hard_watcher_def)
qed

theorem force_hard_reset_closes_soft_watch_witness:
  "electron force_options = Some ''/usr/bin/electron'' \<and>
   ''/usr/bin/electron'' \<noteq> [] \<and>
   forceHardReset force_options = Some True \<and>
   fst (electronReload test_env ''renderer.js'' ''main.js'' force_options proc0) = Returned \<and>
   reloads (trace (run test_env [WindowCreated 7, FileChanged ''renderer.js'', FileChanged ''main.js'']
                     (snd (electronReload test_env ''renderer.js'' ''main.js'' force_options proc0)))) = [] \<and>
   trace (run test_env [WindowCreated 7, FileChanged ''renderer.js'', FileChanged ''main.js'']
            (snd (electronReload test_env ''renderer.js'' ''main.js'' force_options proc0))) =
     [Spawn ''/usr/bin/electron'' [''/app''] True Inherit, ChildUnref, AppQuit]"
proof -
  have h1: "electron force_options = Some ''/usr/bin/electron''"
    by (simp add: force_options_def no_options_def)
  have h2: "''/usr/bin/electron'' \<noteq> []" by simp
  have h3: "forceHardReset force_options = Some True"
    by (simp add: force_options_def no_options_def)
  have h4: "fst (electronReload test_env ''renderer.js'' ''main.js'' force_options proc0) = Returned"
    by code_simp
  have t: "trace (run test_env [WindowCreated 7, FileChanged ''renderer.js'', FileChanged ''main.js'']
            (snd (electronReload test_env ''renderer.js'' ''main.js'' force_options proc0))) =
     [Spawn ''/usr/bin/electron'' [''/app''] True Inherit, ChildUnref, AppQuit]"
    by code_simp
  from force_hard_reset_closes_soft_watch[OF h1 h2 h3 h4,
      of "[WindowCreated 7, FileChanged ''renderer.js'', FileChanged ''main.js'']"] h1 h2 h3 h4 t
  show ?thesis by simp
qed




text \<open>
  C6. When the \<open>electron\<close> option is a non-empty path, the hard reset handler made from the
  options spawns one process, and its argument list is the runtime arguments, then the
  application root path, then the application arguments, an absent \<open>electronArgv\<close> or
  \<open>appArgv\<close> counting as the empty list. After a call in a fresh process no sequence of
  events spawns a process with another executable or argument list.
\<close>

theorem relaunch_argument_list:
  assumes "electron opts = Some exe" and "exe \<noteq> []"
  shows "spawns (trace (createHardResetHandler env (electron opts) (hardResetMethod opts)
                          (electronArgv opts) (appArgv opts) p)) =
           spawns (trace p) @
             [(exe, (case electronArgv opts of None \<Rightarrow> [] | Some xs \<Rightarrow> xs) @ [appPath env] @
                    (case appArgv opts of None \<Rightarrow> [] | Some ys \<Rightarrow> ys))] \<and>
         set (spawns (trace (run env evs (snd (electronReload env glob mainFile opts proc0))))) \<subseteq>
           {(exe, (case electronArgv opts of None \<Rightarrow> [] | Some xs \<Rightarrow> xs) @ [appPath env] @
                  (case appArgv opts of None \<Rightarrow> [] | Some ys \<Rightarrow> ys))}"
proof -
  let ?q = "run env evs (snd (electronReload env glob mainFile opts proc0))"
  let ?args = "(case electronArgv opts of None \<Rightarrow> [] | Some xs \<Rightarrow> xs) @ [appPath env] @
               (case appArgv opts of None \<Rightarrow> [] | Some ys \<Rightarrow> ys)"
  have or_empty: "or_empty xs = (case xs of None \<Rightarrow> [] | Some ys \<Rightarrow> ys)" for xs
    by (cases xs) simp_all
  from assms have handler: "spawns (trace (createHardResetHandler env (electron opts)
      (hardResetMethod opts) (electronArgv opts) (appArgv opts) p)) = spawns (trace p) @ [(exe, ?args)]"
    by (simp add: createHardResetHandler_def Let_def spawns_append or_empty)
  from run_hard_actions[of env evs glob mainFile opts] assms
  have "spawns (hard_actions (trace ?q)) = [] \<or> spawns (hard_actions (trace ?q)) = [(exe, ?args)]"
    by (auto simp: or_empty split: if_splits)
  then have "set (spawns (trace ?q)) \<subseteq> {(exe, ?args)}"
    by (auto simp: spawns_hard_actions)
  with handler show ?thesis by simp
qed

theorem relaunch_argument_list_witness:
  "electron relaunch_options = Some ''/usr/bin/electron'' \<and>
   ''/usr/bin/electron'' \<noteq> [] \<and>
   spawns (trace (createHardResetHandler test_env (electron relaunch_options)
     (hardResetMethod relaunch_options) (electronArgv relaunch_options) (appArgv relaunch_options)
     proc0)) = [(''/usr/bin/electron'', [''--inspect'', ''/app'', ''--dev''])] \<and>
   spawns (trace (run test_env [FileChanged ''main.js'']
     (snd (electronReload test_env ''renderer.js'' ''main.js'' relaunch_options proc0)))) =
     [(''/usr/bin/electron'', [''--inspect'', ''/app'', ''--dev''])]"
proof -
  have h1: "electron relaunch_options = Some ''/usr/bin/electron''"
    by (simp add: relaunch_options_def no_options_def)
  have h2: "''/usr/bin/electron'' \<noteq> []" by simp
  have o: "electronArgv relaunch_options = Some [''--inspect'']"
    "appArgv relaunch_options = Some [''--dev'']" "appPath test_env = ''/app''"
    "trace proc0 = []"
    by (simp_all add: relaunch_options_def no_options_def test_env_def proc0_def)
  have t: "spawns (trace (run test_env [FileChanged ''main.js'']
     (snd (electronReload test_env ''renderer.js'' ''main.js'' relaunch_options proc0)))) =
     [(''/usr/bin/electron'', [''--inspect'', ''/app'', ''--dev''])]"
    by code_simp
  from relaunch_argument_list[OF h1 h2, of test_env proc0 "[FileChanged ''main.js'']"
      "''renderer.js''" "''main.js''"]
  have "spawns (trace (createHardResetHandler test_env (electron relaunch_options)
     (hardResetMethod relaunch_options) (electronArgv relaunch_options) (appArgv relaunch_options)
     proc0)) = [(''/usr/bin/electron'', [''--inspect'', ''/app'', ''--dev''])]"
    by (simp add: o)
  with h1 h2 t show ?thesis by simp
qed

text \<open>
  C7. When the \<open>electron\<close> option is a non-empty path, the hard reset handler made from the
  options adds to the trace, in this order: the spawn of the executable, detached and
  with inherited standard streams; the release of the child's handle; the termination of
  the application, which is \<open>app.exit()\<close> when \<open>hardResetMethod\<close> is \<open>"exit"\<close> and \<open>app.quit()\<close>
  otherwise. After a call in a fresh process and any sequence of events, the trace
  without its reloads is empty or is these three actions: no termination is requested
  that the spawn and the release do not precede.
\<close>

theorem spawn_then_terminate:
  assumes "electron opts = Some exe" and "exe \<noteq> []"
  shows "trace (createHardResetHandler env (electron opts) (hardResetMethod opts)
                  (electronArgv opts) (appArgv opts) p) =
           trace p @
             [Spawn exe (or_empty (electronArgv opts) @ [appPath env] @ or_empty (appArgv opts))
                True Inherit,
              ChildUnref,
              if hardResetMethod opts = Some Exit then AppExit else AppQuit] \<and>
         (hard_actions (trace (run env evs (snd (electronReload env glob mainFile opts proc0)))) = [] \<or>
          hard_actions (trace (run env evs (snd (electronReload env glob mainFile opts proc0)))) =
             [Spawn exe (or_empty (electronArgv opts) @ [appPath env] @ or_empty (appArgv opts))
                True Inherit,
              ChildUnref,
              if hardResetMethod opts = Some Exit then AppExit else AppQuit])"
  using assms run_hard_actions[of env evs glob mainFile opts]
  by (auto simp: createHardResetHandler_def Let_def)

theorem spawn_then_terminate_witness:
  "electron relaunch_options = Some ''/usr/bin/electron'' \<and>
   ''/usr/bin/electron'' \<noteq> [] \<and>
   trace (createHardResetHandler test_env (electron relaunch_options)
     (hardResetMethod relaunch_options) (electronArgv relaunch_options) (appArgv relaunch_options)
     proc0) =
     [Spawn ''/usr/bin/electron'' [''--inspect'', ''/app'', ''--dev''] True Inherit, ChildUnref,
      AppExit] \<and>
   trace (run test_env [WindowCreated 7, FileChanged ''renderer.js'', FileChanged ''main.js'',
                        FileChanged ''main.js'']
     (snd (electronReload test_env ''renderer.js'' ''main.js'' relaunch_options proc0))) =
     [ReloadIgnoringCache 7,
      Spawn ''/usr/bin/electron'' [''--inspect'', ''/app'', ''--dev''] True Inherit, ChildUnref,
      AppExit]"
proof -
  have h1: "electron relaunch_options = Some ''/usr/bin/electron''"
    by (simp add: relaunch_options_def no_options_def)
  have h2: "''/usr/bin/electron'' \<noteq> []" by simp
  have o: "electronArgv relaunch_options = Some [''--inspect'']"
    "appArgv relaunch_options = Some [''--dev'']" "appPath test_env = ''/app''"
    "hardResetMethod relaunch_options = Some Exit" "trace proc0 = []"
    by (simp_all add: relaunch_options_def no_options_def test_env_def proc0_def)
  have t: "trace (run test_env [WindowCreated 7, FileChanged ''renderer.js'', FileChanged ''main.js'',
                        FileChanged ''main.js'']
     (snd (electronReload test_env ''renderer.js'' ''main.js'' relaunch_options proc0))) =
     [ReloadIgnoringCache 7,
      Spawn ''/usr/bin/electron'' [''--inspect'', ''/app'', ''--dev''] True Inherit, ChildUnref,
      AppExit]"
    by code_simp
  from spawn_then_terminate[OF h1 h2, of test_env proc0 "[]" "''renderer.js''" "''main.js''"]
  have "trace (createHardResetHandler test_env (electron relaunch_options)
     (hardResetMethod relaunch_options) (electronArgv relaunch_options) (appArgv relaunch_options)
     proc0) =
     [Spawn ''/usr/bin/electron'' [''--inspect'', ''/app'', ''--dev''] True Inherit, ChildUnref,
      AppExit]"
    by (simp add: o)
  with h1 h2 t show ?thesis by simp
qed

text \<open>
  C4. In a process whose listeners captured allocated arrays only, take the array of a
  call and any sequence of events after it in which each window is created at most once
  and closed at most once. The array then holds exactly the windows that are open, none
  of them twice, and the \<open>closed\<close> event of an open window removes that window from the
  array and nothing else.
\<close>

theorem registry_tracks_open_windows:
  assumes "allocated p0" and "valid_lifecycle evs"
  shows "let a = next_addr p0;
             q = run env evs (snd (electronReload env glob mainFile opts p0))
         in set (arrays q a) = open_windows evs \<and>
            distinct (arrays q a) \<and>
            (\<forall>w \<in> open_windows evs.
               arrays (step env (WindowClosed w) q) a = remove1 w (arrays q a))"
proof -
  let ?a = "next_addr p0"
  let ?q = "run env evs (snd (electronReload env glob mainFile opts p0))"
  from tracks_run[OF tracks_new[OF assms(1)] assms(2)]
  have inv: "tracks ?a evs ?q" .
  have "arrays (step env (WindowClosed w) ?q) ?a = remove1 w (arrays ?q ?a)"
    if "w \<in> open_windows evs" for w
  proof -
    from that open_subset_created[of evs] have "w \<in> set (created_of evs)" by auto
    moreover from assms(2) have "distinct (created_of evs)" by (simp add: valid_lifecycle_def)
    ultimately have "count_list (created_of evs) w = 1" by (simp add: count_list_distinct)
    with inv have "count_list (closed_listeners ?q) (w, ?a) = 1" by (simp add: tracks_def)
    moreover from inv that have "w \<in> set (arrays ?q ?a)" by (simp add: tracks_def)
    ultimately show ?thesis by (simp add: step_WindowClosed remove_js_present)
  qed
  with inv show ?thesis by (simp add: tracks_def Let_def)
qed

theorem registry_tracks_open_windows_witness:
  "allocated proc0 \<and>
   valid_lifecycle [WindowCreated 1, WindowCreated 2, FileChanged ''renderer.js'', WindowClosed 1,
                    WindowCreated 3] \<and>
   arrays (run test_env [WindowCreated 1, WindowCreated 2, FileChanged ''renderer.js'',
                         WindowClosed 1, WindowCreated 3]
             (snd (electronReload test_env ''renderer.js'' ''main.js'' no_options proc0))) 0 = [2, 3] \<and>
   open_windows [WindowCreated 1, WindowCreated 2, FileChanged ''renderer.js'', WindowClosed 1,
                 WindowCreated 3] = {2, 3}"
proof -
  let ?evs = "[WindowCreated 1, WindowCreated 2, FileChanged ''renderer.js'', WindowClosed 1,
               WindowCreated 3]"
  have h1: "allocated proc0" by (rule proc0_allocated)
  have h2: "valid_lifecycle ?evs" by (simp add: valid_lifecycle_def)
  have a: "arrays (run test_env ?evs
             (snd (electronReload test_env ''renderer.js'' ''main.js'' no_options proc0))) 0 = [2, 3]"
    by code_simp
  have n: "next_addr proc0 = 0" by (simp add: proc0_def)
  from registry_tracks_open_windows[OF h1 h2, of test_env "''renderer.js''" "''main.js''" no_options]
  have "open_windows ?evs = {2, 3}"
    unfolding Let_def n a by simp
  with h1 h2 a show ?thesis by simp
qed

text \<open>
  The hypothesis on the events is needed: were a window to emit \<open>closed\<close> twice, the second
  \<open>indexOf\<close> would be \<open>-1\<close> and \<open>splice(-1, 1)\<close> would remove the last window of the array.
\<close>

lemma second_closed_removes_last:
  "arrays (run test_env [WindowCreated 1, WindowCreated 2, WindowClosed 1, WindowClosed 1]
             (snd (electronReload test_env ''renderer.js'' ''main.js'' no_options proc0))) 0 = []"
  by code_simp

text \<open>
  C5. After a call in a fresh process and any sequence of events in which each window is
  created at most once and closed at most once, a change for which the soft watcher
  emits reloads the windows of the array, in its order; the array holds every open
  window once and no other window, so each open window is reloaded once and a window
  that was closed is not reloaded.
\<close>

theorem soft_reset_reloads_tracked_windows:
  assumes "valid_lifecycle evs"
  shows "let q = run env evs (snd (electronReload env glob mainFile opts proc0))
         in emits env (hd (watchers q)) path \<longrightarrow>
              reloads (drop (length (trace q)) (trace (step env (FileChanged path) q))) =
                arrays q 0 \<and>
              (\<forall>w. count_list (arrays q 0) w = (if w \<in> open_windows evs then 1 else 0))"
proof -
  let ?q = "run env evs (snd (electronReload env glob mainFile opts proc0))"
  from tracks_run[OF tracks_new[OF proc0_allocated] assms, of env env glob mainFile opts]
  have inv: "tracks 0 evs ?q" by (simp add: proc0_def)
  then have cnt: "count_list (arrays ?q 0) w = (if w \<in> open_windows evs then 1 else 0)" for w
    by (auto simp: tracks_def count_list_distinct)
  from run_watchers_shape[of env evs glob mainFile opts]
  obtain c ws where shape: "watchers ?q = soft_watcher glob mainFile opts 0 c # ws"
    and rest: "list_all soft_silent ws" by auto
  have "reloads (drop (length (trace ?q)) (trace (step env (FileChanged path) ?q))) = arrays ?q 0"
    if "emits env (hd (watchers ?q)) path"
  proof -
    from that shape have "fired env (arrays ?q) path (soft_watcher glob mainFile opts 0 c) =
        map ReloadIgnoringCache (arrays ?q 0)"
      by (simp add: fired_def) (simp add: soft_watcher_def)
    with shape fired_silent_all[OF rest, of env "arrays ?q" path] show ?thesis
      by (simp add: step_FileChanged reloads_append reloads_map)
  qed
  with cnt show ?thesis by (simp add: Let_def)
qed

theorem soft_reset_reloads_tracked_windows_witness:
  "valid_lifecycle [WindowCreated 1, WindowCreated 2, WindowClosed 1, WindowCreated 3] \<and>
   emits test_env
     (hd (watchers (run test_env [WindowCreated 1, WindowCreated 2, WindowClosed 1, WindowCreated 3]
            (snd (electronReload test_env ''renderer.js'' ''main.js'' no_options proc0)))))
     ''renderer.js'' \<and>
   reloads (drop
     (length (trace (run test_env [WindowCreated 1, WindowCreated 2, WindowClosed 1, WindowCreated 3]
        (snd (electronReload test_env ''renderer.js'' ''main.js'' no_options proc0)))))
     (trace (step test_env (FileChanged ''renderer.js'')
        (run test_env [WindowCreated 1, WindowCreated 2, WindowClosed 1, WindowCreated 3]
           (snd (electronReload test_env ''renderer.js'' ''main.js'' no_options proc0)))))) = [2, 3]"
proof -
  let ?evs = "[WindowCreated 1, WindowCreated 2, WindowClosed 1, WindowCreated 3]"
  let ?q = "run test_env ?evs (snd (electronReload test_env ''renderer.js'' ''main.js'' no_options proc0))"
  have h1: "valid_lifecycle ?evs" by (simp add: valid_lifecycle_def)
  have h2: "emits test_env (hd (watchers ?q)) ''renderer.js''" by code_simp
  have a: "arrays ?q 0 = [2, 3]" by code_simp
  from soft_reset_reloads_tracked_windows[OF h1, of test_env "''renderer.js''" "''main.js''"
      no_options "''renderer.js''"] h2 a
  have "reloads (drop (length (trace ?q)) (trace (step test_env (FileChanged ''renderer.js'') ?q))) = [2, 3]"
    by (simp add: Let_def)
  with h1 h2 show ?thesis by simp
qed

text \<open>
  C8, as amended. Every call creates the soft watcher over the glob, with the caller's
  options. When the caller supplies no \<open>ignored\<close> option, its exclusions are the fixed rule
  for dependency directories and dot-files and the entry-point file, and every other
  option is the caller's; when the caller supplies an \<open>ignored\<close> option, the options are
  the caller's as they are, and the caller's exclusions replace both.
\<close>

theorem soft_watch_exclusions:
  "paths (watchers (snd (electronReload env glob mainFile opts p0)) ! length (watchers p0)) = [glob] \<and>
   (ignored opts = None \<longrightarrow>
      wopts (watchers (snd (electronReload env glob mainFile opts p0)) ! length (watchers p0)) =
        opts\<lparr>ignored := Some [RegExp ignoredPaths, Str mainFile]\<rparr>) \<and>
   (ignored opts \<noteq> None \<longrightarrow>
      wopts (watchers (snd (electronReload env glob mainFile opts p0)) ! length (watchers p0)) = opts)"
  by (auto simp: electronReload_state new_watchers_def soft_watcher_def assign_ignored_def)

theorem soft_watch_exclusions_witness:
  "ignored no_options = None \<and>
   ignored ignore_dist \<noteq> None \<and>
   ignored (wopts (hd (watchers (snd (electronReload test_env ''renderer.js'' ''main.js''
                                        no_options proc0))))) =
     Some [RegExp ignoredPaths, Str ''main.js''] \<and>
   ignored (wopts (hd (watchers (snd (electronReload test_env ''renderer.js'' ''main.js''
                                        ignore_dist proc0))))) =
     Some [Str ''dist'']"
proof -
  have h1: "ignored no_options = None" by (simp add: no_options_def)
  have h2: "ignored ignore_dist \<noteq> None" by (simp add: ignore_dist_def no_options_def)
  have n: "length (watchers proc0) = 0" by (simp add: proc0_def)
  have z: "ws \<noteq> [] \<Longrightarrow> ws ! 0 = hd ws" for ws :: "watcher list"
    by (simp add: hd_conv_nth)
  have e1: "watchers (snd (electronReload test_env ''renderer.js'' ''main.js'' no_options proc0)) \<noteq> []"
    by (simp add: electronReload_state new_watchers_def)
  have e2: "watchers (snd (electronReload test_env ''renderer.js'' ''main.js'' ignore_dist proc0)) \<noteq> []"
    by (simp add: electronReload_state new_watchers_def)
  from soft_watch_exclusions[of test_env "''renderer.js''" "''main.js''" no_options proc0]
    soft_watch_exclusions[of test_env "''renderer.js''" "''main.js''" ignore_dist proc0]
    h1 h2
  show ?thesis
    by (simp add: n z[OF e1] z[OF e2]) (simp add: ignore_dist_def no_options_def)
qed

text \<open>
  C8, as stated, fails: with a caller-supplied \<open>ignored\<close> option the exclusions of the soft
  watcher are the caller's alone, so neither the fixed rule nor the entry-point file is
  excluded, and a change under \<open>node_modules\<close> that the glob covers reloads the windows.
\<close>

theorem caller_ignored_replaces_default_counterexample:
  "ignored_list (ignored (wopts (hd (watchers (snd (electronReload test_env
      ''node_modules/dep/index.js'' ''main.js'' ignore_dist proc0)))))) = [Str ''dist''] \<and>
   ignoredPaths ''node_modules/dep/index.js'' \<and>
   trace (run test_env [WindowCreated 7, FileChanged ''node_modules/dep/index.js'']
            (snd (electronReload test_env ''node_modules/dep/index.js'' ''main.js''
                    ignore_dist proc0))) = [ReloadIgnoringCache 7] \<and>
   trace (run test_env [WindowCreated 7, FileChanged ''node_modules/dep/index.js'']
            (snd (electronReload test_env ''node_modules/dep/index.js'' ''main.js''
                    no_options proc0))) = []"
proof (intro conjI)
  show "ignored_list (ignored (wopts (hd (watchers (snd (electronReload test_env
      ''node_modules/dep/index.js'' ''main.js'' ignore_dist proc0)))))) = [Str ''dist'']"
    by (simp add: electronReload_proc0 new_watchers_def hard_enabled_def soft_watcher_def
        assign_ignored_def ignore_dist_def no_options_def)
  show "ignoredPaths ''node_modules/dep/index.js''"
    by code_simp
  show "trace (run test_env [WindowCreated 7, FileChanged ''node_modules/dep/index.js'']
            (snd (electronReload test_env ''node_modules/dep/index.js'' ''main.js''
                    ignore_dist proc0))) = [ReloadIgnoringCache 7]"
    by code_simp
  show "trace (run test_env [WindowCreated 7, FileChanged ''node_modules/dep/index.js'']
            (snd (electronReload test_env ''node_modules/dep/index.js'' ''main.js''
                    no_options proc0))) = []"
    by code_simp
qed

text \<open>
  C9. When the \<open>electron\<close> option is a non-empty path that exists, the call leaves two
  watchers: the soft watcher with the soft reset handler registered with \<open>on\<close>, and the
  hard watcher with the hard reset handler registered with \<open>once\<close>. In no sequence of later
  events is a process spawned more than once.
\<close>

theorem hard_reset_at_most_once:
  assumes "electron opts = Some exe" and "exe \<noteq> []" and "existsSync env exe"
  shows "map listeners (watchers (snd (electronReload env glob mainFile opts proc0))) =
           [[\<lparr>once = False, handler = SoftReset 0\<rparr>],
            [\<lparr>once = True, handler =
               HardReset (Some exe) (hardResetMethod opts) (electronArgv opts) (appArgv opts)\<rparr>]] \<and>
         length (spawns (trace (run env evs (snd (electronReload env glob mainFile opts proc0))))) \<le> 1"
proof -
  let ?p = "snd (electronReload env glob mainFile opts proc0)"
  have ws: "watchers ?p = new_watchers env glob mainFile opts 0"
    by (simp add: electronReload_proc0)
  have "length (spawns (trace (run env evs ?p))) + sum_list (map pending (watchers (run env evs ?p)))
          \<le> length (spawns (trace ?p)) + sum_list (map pending (watchers ?p))"
    by (rule run_budget) (simp add: ws new_watchers_once_hard)
  moreover have "spawns (trace ?p) = []"
    by (simp add: electronReload_proc0) (simp add: proc0_def)
  moreover have "sum_list (map pending (watchers ?p)) \<le> 1"
    unfolding ws by (rule new_watchers_pending)
  ultimately have "length (spawns (trace (run env evs ?p))) \<le> 1" by simp
  with assms ws show ?thesis
    by (simp add: new_watchers_def hard_enabled_def hard_watcher_def soft_watcher_def)
qed

theorem hard_reset_at_most_once_witness:
  "electron with_electron = Some ''/usr/bin/electron'' \<and>
   ''/usr/bin/electron'' \<noteq> [] \<and>
   existsSync test_env ''/usr/bin/electron'' \<and>
   length (spawns (trace (run test_env [FileChanged ''main.js'', FileChanged ''main.js'']
     (snd (electronReload test_env ''renderer.js'' ''main.js'' with_electron proc0))))) \<le> 1 \<and>
   trace (run test_env [FileChanged ''main.js'', FileChanged ''main.js'']
     (snd (electronReload test_env ''renderer.js'' ''main.js'' with_electron proc0))) =
     [Spawn ''/usr/bin/electron'' [''/app''] True Inherit, ChildUnref, AppQuit]"
proof -
  have h1: "electron with_electron = Some ''/usr/bin/electron''"
    by (simp add: with_electron_def no_options_def)
  have h2: "''/usr/bin/electron'' \<noteq> []" by simp
  have h3: "existsSync test_env ''/usr/bin/electron''" by (simp add: test_env_def)
  have t: "trace (run test_env [FileChanged ''main.js'', FileChanged ''main.js'']
     (snd (electronReload test_env ''renderer.js'' ''main.js'' with_electron proc0))) =
     [Spawn ''/usr/bin/electron'' [''/app''] True Inherit, ChildUnref, AppQuit]"
    by code_simp
  from hard_reset_at_most_once[OF h1 h2 h3, of "''renderer.js''" "''main.js''"
      "[FileChanged ''main.js'', FileChanged ''main.js'']"]
  have "length (spawns (trace (run test_env [FileChanged ''main.js'', FileChanged ''main.js'']
     (snd (electronReload test_env ''renderer.js'' ''main.js'' with_electron proc0))))) \<le> 1"
    by simp
  with h1 h2 h3 t show ?thesis by simp
qed

text \<open>
  C10. In a process whose listeners captured allocated arrays only, a call allocates an
  array that no listener had captured, and leaves it empty. A second call, after any
  events, allocates another array, empty too, and leaves the first as it was. From then
  on the first array is what it would be had the second call not been made, and the
  second array is what the array of the same call would be in a fresh process.
\<close>

theorem fresh_window_collection_per_call:
  assumes "allocated p0"
  shows "let a1 = next_addr p0;
             p1 = snd (electronReload env glob1 mainFile1 opts1 p0);
             q1 = run env evs1 p1;
             a2 = next_addr q1;
             p2 = snd (electronReload env glob2 mainFile2 opts2 q1)
         in a1 \<notin> set (created_listeners p0) \<and> a1 \<notin> snd ` set (closed_listeners p0) \<and>
            arrays p1 a1 = [] \<and>
            a2 \<noteq> a1 \<and> arrays p2 a2 = [] \<and> arrays p2 a1 = arrays q1 a1 \<and>
            arrays (run env evs2 p2) a1 = arrays (run env (evs1 @ evs2) p1) a1 \<and>
            arrays (run env evs2 p2) a2 =
              arrays (run env evs2 (snd (electronReload env glob2 mainFile2 opts2 proc0)))
                (next_addr proc0)"
proof -
  let ?a1 = "next_addr p0"
  let ?p1 = "snd (electronReload env glob1 mainFile1 opts1 p0)"
  let ?q1 = "run env evs1 ?p1"
  let ?a2 = "next_addr ?q1"
  let ?p2 = "snd (electronReload env glob2 mainFile2 opts2 ?q1)"
  let ?lone = "snd (electronReload env glob2 mainFile2 opts2 proc0)"
  have a2: "?a2 = Suc ?a1" by (simp add: run_next_addr electronReload_state)
  have alloc: "allocated ?q1"
    by (intro allocated_run allocated_electronReload assms)
  from assms have fresh: "?a1 \<notin> set (created_listeners p0)" "?a1 \<notin> snd ` set (closed_listeners p0)"
    by (auto simp: allocated_def list_all_iff)
  have e1: "arrays ?p1 ?a1 = []" by (simp add: electronReload_state)
  have e2: "arrays ?p2 ?a2 = []" by (simp add: electronReload_state)
  have old: "view ?a1 ?p2 = view ?a1 ?q1" by (rule view_old) (simp add: a2)
  then have keep: "arrays ?p2 ?a1 = arrays ?q1 ?a1" by (rule view_arrays)
  from view_run[OF old, of env evs2 env]
  have "arrays (run env evs2 ?p2) ?a1 = arrays (run env evs2 ?q1) ?a1"
    by (rule view_arrays)
  then have first: "arrays (run env evs2 ?p2) ?a1 = arrays (run env (evs1 @ evs2) ?p1) ?a1"
    by (simp add: run_append)
  have "view ?a2 ?p2 = view (next_addr proc0) ?lone"
    by (simp add: view_new[OF alloc] view_new[OF proc0_allocated])
  from view_run[OF this, of env evs2 env]
  have second: "arrays (run env evs2 ?p2) ?a2 = arrays (run env evs2 ?lone) (next_addr proc0)"
    by (rule view_arrays)
  from fresh e1 e2 keep first second a2 show ?thesis by (simp add: Let_def)
qed

theorem fresh_window_collection_per_call_witness:
  "allocated proc0 \<and>
   arrays (run test_env [WindowCreated 2, WindowClosed 1]
            (snd (electronReload test_env ''other.js'' ''main.js'' with_electron
               (run test_env [WindowCreated 1]
                  (snd (electronReload test_env ''renderer.js'' ''main.js'' no_options proc0)))))) 0 =
     [2] \<and>
   arrays (run test_env [WindowCreated 2, WindowClosed 1]
            (snd (electronReload test_env ''other.js'' ''main.js'' with_electron
               (run test_env [WindowCreated 1]
                  (snd (electronReload test_env ''renderer.js'' ''main.js'' no_options proc0)))))) 1 =
     [2]"
proof -
  let ?p1 = "snd (electronReload test_env ''renderer.js'' ''main.js'' no_options proc0)"
  let ?p2 = "snd (electronReload test_env ''other.js'' ''main.js'' with_electron
               (run test_env [WindowCreated 1] ?p1))"
  have h: "allocated proc0" by (rule proc0_allocated)
  have n1: "next_addr proc0 = 0" by (simp add: proc0_def)
  have n2: "next_addr (run test_env [WindowCreated 1] ?p1) = 1"
    by (simp only: run_next_addr) (simp add: electronReload_state n1)
  have r1: "arrays (run test_env ([WindowCreated 1] @ [WindowCreated 2, WindowClosed 1]) ?p1) 0 = [2]"
    by code_simp
  have r2: "arrays (run test_env [WindowCreated 2, WindowClosed 1]
              (snd (electronReload test_env ''other.js'' ''main.js'' with_electron proc0))) 0 = [2]"
    by code_simp
  from fresh_window_collection_per_call[OF h, of test_env "''renderer.js''" "''main.js''" no_options
      "[WindowCreated 1]" "''other.js''" "''main.js''" with_electron "[WindowCreated 2, WindowClosed 1]"]
  have "arrays (run test_env [WindowCreated 2, WindowClosed 1] ?p2) 0 = [2] \<and>
        arrays (run test_env [WindowCreated 2, WindowClosed 1] ?p2) 1 = [2]"
    unfolding Let_def n1 n2 r1 r2 by simp
  with h show ?thesis by simp
qed

end
